theory Spec2Isabelle
  imports Main "HOL-Library.Char_ord" "HOL-Library.List_Lexorder" "HOL-Library.Product_Lexorder"
begin

section \<open>Calendar dates\<close>

text \<open>
  Both scripts work with Python's \<^verbatim>\<open>datetime.date\<close>: a year, a month and a day,
  compared as the triple (year, month, day). The constructor and \<^verbatim>\<open>replace\<close> accept a
  year from 1 to 9999, a month from 1 to 12 and a day that exists in that month, and raise
  \<^verbatim>\<open>ValueError\<close> otherwise.
\<close>

datatype date = Date (year: nat) (month: nat) (day: nat)

instantiation date :: linorder
begin

definition less_eq_date :: "date \<Rightarrow> date \<Rightarrow> bool" where
  "less_eq_date a b \<longleftrightarrow>
     year a < year b \<or> (year a = year b \<and> (month a < month b \<or> (month a = month b \<and> day a \<le> day b)))"

definition less_date :: "date \<Rightarrow> date \<Rightarrow> bool" where
  "less_date a b \<longleftrightarrow>
     year a < year b \<or> (year a = year b \<and> (month a < month b \<or> (month a = month b \<and> day a < day b)))"

instance
proof
  fix x y z :: date
  show "(x < y) = (x \<le> y \<and> \<not> y \<le> x)"
    by (auto simp: less_eq_date_def less_date_def)
  show "x \<le> x"
    by (simp add: less_eq_date_def)
  show "x \<le> y \<Longrightarrow> y \<le> z \<Longrightarrow> x \<le> z"
    by (auto simp: less_eq_date_def)
  show "x \<le> y \<Longrightarrow> y \<le> x \<Longrightarrow> x = y"
    by (cases x; cases y) (auto simp: less_eq_date_def)
  show "x \<le> y \<or> y \<le> x"
    by (auto simp: less_eq_date_def)
qed

end

datatype error = ValueError | LoadError

definition MINYEAR :: nat where
  "MINYEAR = 1"

definition MAXYEAR :: nat where
  "MAXYEAR = 9999"

definition is_leap :: "nat \<Rightarrow> bool" where
  "is_leap y \<longleftrightarrow> y mod 4 = 0 \<and> (y mod 100 \<noteq> 0 \<or> y mod 400 = 0)"

definition days_in_month :: "nat \<Rightarrow> nat \<Rightarrow> nat" where
  "days_in_month y m =
     (if m = 2 \<and> is_leap y then 29
      else [31, 28, 31, 30, 31, 30, 31, 31, 30, 31, 30, 31] ! (m - 1))"

definition valid_date :: "date \<Rightarrow> bool" where
  "valid_date d \<longleftrightarrow>
     MINYEAR \<le> year d \<and> year d \<le> MAXYEAR \<and> 1 \<le> month d \<and> month d \<le> 12 \<and>
     1 \<le> day d \<and> day d \<le> days_in_month (year d) (month d)"

text \<open>\<^verbatim>\<open>d.replace(year=y, month=m, day=dd)\<close>: a new date, checked like the constructor.\<close>

definition date_replace :: "nat \<Rightarrow> nat \<Rightarrow> nat \<Rightarrow> error + date" where
  "date_replace y m dd = (if valid_date (Date y m dd) then Inr (Date y m dd) else Inl ValueError)"

text \<open>
  \<^verbatim>\<open>str(d)\<close> is the ISO form \<^verbatim>\<open>YYYY-MM-DD\<close>, zero padded;
  \<^verbatim>\<open>d.strftime("%Y-%m-%d")\<close> gives the same text for every year from 1000 on.
\<close>

definition digit :: "nat \<Rightarrow> char" where
  "digit n = ''0123456789'' ! (n mod 10)"

definition pad2 :: "nat \<Rightarrow> string" where
  "pad2 n = [digit (n div 10), digit n]"

definition pad4 :: "nat \<Rightarrow> string" where
  "pad4 n = [digit (n div 1000), digit (n div 100), digit (n div 10), digit n]"

definition isoformat :: "date \<Rightarrow> string" where
  "isoformat d = pad4 (year d) @ ''-'' @ pad2 (month d) @ ''-'' @ pad2 (day d)"

definition strftime_ymd :: "date \<Rightarrow> string" where
  "strftime_ymd d = isoformat d"

section \<open>Tables and effects\<close>

text \<open>
  A cell of the \<^verbatim>\<open>date\<close> column is either the text read from the CSV, here already
  understood as the calendar date and the time of day (in seconds) it denotes, or, once
  \<^verbatim>\<open>process_data\<close> has run, a \<^verbatim>\<open>datetime.date\<close> object. A cell of a numeric column
  is \<open>None\<close> for a missing value (NaN).
\<close>

datatype date_cell = Stamp date nat | Day date

record row =
  date :: date_cell
  country :: string
  iso_alpha :: string
  confirmed :: "int option"
  deaths :: "int option"
  recovered :: "int option"

text \<open>
  The loaded table has further columns (\<^verbatim>\<open>region\<close> and whatever else the API sent): they
  are the extension part of a \<open>'a row_scheme\<close>.
\<close>

type_synonym sums = "int option \<times> int option \<times> int option"

datatype chart =
    Choropleth "((string \<times> string) \<times> sums) list"
  | Line string "row list"

text \<open>What a run does to the outside world, in order.\<close>

datatype 'r effect =
    Print string
  | Http_get string
  | To_csv string "'r list"
  | St_title string
  | St_write string
  | St_multiselect string "string list" "string list"
  | St_date_input string date date date
  | St_error string
  | St_info string
  | St_subheader string
  | St_columns nat
  | St_metric string "int option" string
  | St_plotly_chart chart

section \<open>The fetcher\<close>

record 'r response =
  status_code :: nat
  json_data :: "'r list"

text \<open>
  \<^verbatim>\<open>fetch_data_for_date\<close>: one GET; the records under \<^verbatim>\<open>data\<close> on status 200, a
  message and \<^verbatim>\<open>None\<close> otherwise. The HTTP layer is the parameter \<open>get\<close>, from the URL
  to the response.
\<close>

definition fetch_data_for_date ::
  "(string \<Rightarrow> 'r response) \<Rightarrow> string \<Rightarrow> 'r effect list \<times> 'r list option" where
  "fetch_data_for_date get d =
     (let url = ''https://covid-api.com/api/reports?date='' @ d;
          response = get url
      in if status_code response = 200 then ([Http_get url], Some (json_data response))
         else ([Http_get url, Print (''Failed to fetch data for '' @ d)], None))"

text \<open>The end of the loop body: the first day of the next month.\<close>

definition next_date :: "date \<Rightarrow> error + date" where
  "next_date current_date =
     (if month current_date = 12 then date_replace (year current_date + 1) 1 1
      else date_replace (year current_date) (month current_date + 1) 1)"

record 'r fetch_run =
  all_data :: "'r list"
  current :: date
  log :: "'r effect list"
  raised :: "error option"

definition month_index :: "date \<Rightarrow> nat" where
  "month_index d = 12 * year d + month d"

text \<open>
  The \<^verbatim>\<open>while current_date <= end_date\<close> loop. It returns the accumulator, the last value
  of \<^verbatim>\<open>current_date\<close>, what was printed and requested, and the exception that ended it,
  if one did.
\<close>

function fetch_loop ::
  "(string \<Rightarrow> 'r response) \<Rightarrow> date \<Rightarrow> date \<Rightarrow> 'r list \<Rightarrow> 'r effect list \<Rightarrow> 'r fetch_run" where
  "fetch_loop get end_date current_date acc out =
     (if current_date \<le> end_date then
        (case fetch_data_for_date get (strftime_ymd current_date) of
           (io, data) \<Rightarrow>
             (let out1 = out @ [Print (''Fetching data for '' @ isoformat current_date @ ''...'')] @ io;
                  acc1 = (case data of Some (x # xs) \<Rightarrow> acc @ x # xs | _ \<Rightarrow> acc)
              in case next_date current_date of
                   Inl e \<Rightarrow> \<lparr>all_data = acc1, current = current_date, log = out1, raised = Some e\<rparr>
                 | Inr d \<Rightarrow> fetch_loop get end_date d acc1 out1))
      else \<lparr>all_data = acc, current = current_date, log = out, raised = None\<rparr>)"
  by pat_completeness auto

lemma next_date_Inr:
  "next_date c = Inr d \<Longrightarrow> month_index d = Suc (month_index c) \<and> day d = 1 \<and> valid_date d"
  by (auto simp: next_date_def date_replace_def month_index_def valid_date_def split: if_splits)

lemma le_month_index: "c \<le> e \<Longrightarrow> next_date c = Inr d \<Longrightarrow> month_index c \<le> month_index e + 12"
  by (auto simp: next_date_def date_replace_def month_index_def valid_date_def less_eq_date_def
      split: if_splits)

lemma fetch_loop_measure:
  "c \<le> e \<Longrightarrow> next_date c = Inr d \<Longrightarrow>
     month_index e + 13 - month_index d < month_index e + 13 - month_index c"
  using next_date_Inr [of c d] le_month_index [of c e d] by simp

termination fetch_loop
  by (relation "measure (\<lambda>(get, e, c, acc, out). month_index e + 13 - month_index c)")
    (simp_all add: fetch_loop_measure)


text \<open>
  The script: the loop from the start date, then the table written to the CSV file. An
  exception of the loop ends the run before anything is written.
\<close>

definition fetch_script :: "(string \<Rightarrow> 'r response) \<Rightarrow> date \<Rightarrow> date \<Rightarrow> 'r fetch_run" where
  "fetch_script get start_date end_date =
     (let run = fetch_loop get end_date start_date [] []
      in case raised run of
           Some e \<Rightarrow> run
         | None \<Rightarrow> run\<lparr>log := log run @
             [To_csv ''covid_data_monthly.csv'' (all_data run),
              Print ''Data saved to covid_data_monthly.csv'']\<rparr>)"

definition fetcher :: "(string \<Rightarrow> 'r response) \<Rightarrow> 'r fetch_run" where
  "fetcher get = fetch_script get (Date 2020 3 9) (Date 2023 3 9)"

text \<open>
  The vocabulary of the claims: the URL of a request, the requests of a run, the first day
  of the \<open>k\<close>-th month after a date's month, the number of calendar months from the start
  date's month to the end date's, and the dates the loop is expected to sample.
\<close>

definition request_url :: "string \<Rightarrow> string" where
  "request_url d = ''https://covid-api.com/api/reports?date='' @ d"

fun gets :: "'r effect list \<Rightarrow> string list" where
  "gets [] = []"
| "gets (Http_get u # es) = u # gets es"
| "gets (_ # es) = gets es"

definition first_of_month_after :: "date \<Rightarrow> nat \<Rightarrow> date" where
  "first_of_month_after d k =
     Date ((month_index d + k - 1) div 12) ((month_index d + k - 1) mod 12 + 1) 1"

definition months_spanned :: "date \<Rightarrow> date \<Rightarrow> nat" where
  "months_spanned s e = month_index e + 1 - month_index s"

definition sampled_dates :: "date \<Rightarrow> date \<Rightarrow> date list" where
  "sampled_dates s e = s # map (first_of_month_after s) [1..<months_spanned s e]"

text \<open>What one pass through the loop body prints and requests, and what it appends.\<close>

definition body_out :: "(string \<Rightarrow> 'r response) \<Rightarrow> date \<Rightarrow> 'r effect list" where
  "body_out get c = Print (''Fetching data for '' @ isoformat c @ ''...'') #
      fst (fetch_data_for_date get (strftime_ymd c))"

definition body_acc :: "(string \<Rightarrow> 'r response) \<Rightarrow> date \<Rightarrow> 'r list" where
  "body_acc get c = (case snd (fetch_data_for_date get (strftime_ymd c)) of Some xs \<Rightarrow> xs | None \<Rightarrow> [])"

text \<open>
  The year after 9999 does not exist: a loop that reaches December 9999 is ended by the
  \<^verbatim>\<open>ValueError\<close> of \<^verbatim>\<open>replace\<close>.
\<close>

definition overflows :: "date \<Rightarrow> bool" where
  "overflows e \<longleftrightarrow> year e = MAXYEAR \<and> month e = 12"

definition final_date :: "date \<Rightarrow> date \<Rightarrow> date" where
  "final_date c e = (if overflows e then last (sampled_dates c e) else first_of_month_after e (Suc 0))"

definition no_data :: "string \<Rightarrow> unit response" where
  "no_data url = \<lparr>status_code = 200, json_data = []\<rparr>"

section \<open>The dashboard\<close>

subsection \<open>What the dataframe library does\<close>

text \<open>
  \<^verbatim>\<open>pd.to_datetime(x)\<close> reads a cell as a timestamp (a date object counts as its
  midnight) and \<^verbatim>\<open>.dt.date\<close> keeps the calendar date of it.
\<close>

definition to_datetime :: "date_cell \<Rightarrow> date \<times> nat" where
  "to_datetime c = (case c of Stamp d t \<Rightarrow> (d, t) | Day d \<Rightarrow> (d, 0))"

definition dt_date :: "date \<times> nat \<Rightarrow> date" where
  "dt_date ts = fst ts"

definition cell_date :: "date_cell \<Rightarrow> date" where
  "cell_date c = dt_date (to_datetime c)"

text \<open>
  \<^verbatim>\<open>groupby(keys)\<close> with the default \<^verbatim>\<open>sort=True\<close>: the rows are taken in order
  and each one joins the group of its key; the groups are kept in ascending order of key.
\<close>

fun insert_row :: "'k::linorder \<Rightarrow> 'r \<Rightarrow> ('k \<times> 'r list) list \<Rightarrow> ('k \<times> 'r list) list" where
  "insert_row k r [] = [(k, [r])]"
| "insert_row k r ((k', rs) # gs) =
     (if k = k' then (k', rs @ [r]) # gs
      else if k < k' then (k, [r]) # (k', rs) # gs
      else (k', rs) # insert_row k r gs)"

definition groupby :: "('r \<Rightarrow> 'k::linorder) \<Rightarrow> 'r list \<Rightarrow> ('k \<times> 'r list) list" where
  "groupby key rows = foldl (\<lambda>gs r. insert_row (key r) r gs) [] rows"

text \<open>
  The aggregation \<^verbatim>\<open>'sum'\<close> skips missing values and starts from 0, so the sum of a group
  without any value is 0, not missing.
\<close>

definition series_sum :: "int option list \<Rightarrow> int option" where
  "series_sum xs = Some (foldl (\<lambda>a x. case x of None \<Rightarrow> a | Some v \<Rightarrow> a + v) 0 xs)"

definition agg_sum :: "'a row_scheme list \<Rightarrow> sums" where
  "agg_sum rs =
     (series_sum (map confirmed rs), series_sum (map deaths rs), series_sum (map recovered rs))"

text \<open>
  \<^verbatim>\<open>Series.max()\<close> and \<^verbatim>\<open>Series.idxmax()\<close> scan the column once, skip missing values
  and keep the first position of the largest value. The maximum of no value is missing;
  \<^verbatim>\<open>idxmax\<close> of no value raises \<^verbatim>\<open>ValueError\<close>.
\<close>

definition argmax_step :: "(nat \<times> int) option \<Rightarrow> nat \<times> int option \<Rightarrow> (nat \<times> int) option" where
  "argmax_step best ix =
     (case snd ix of
        None \<Rightarrow> best
      | Some v \<Rightarrow>
          (case best of
             None \<Rightarrow> Some (fst ix, v)
           | Some (j, w) \<Rightarrow> if w < v then Some (fst ix, v) else best))"

definition argmax_scan :: "int option list \<Rightarrow> (nat \<times> int) option" where
  "argmax_scan xs = foldl argmax_step None (zip [0..<length xs] xs)"

definition series_max :: "int option list \<Rightarrow> int option" where
  "series_max xs = map_option snd (argmax_scan xs)"

definition series_idxmax :: "int option list \<Rightarrow> error + nat" where
  "series_idxmax xs = (case argmax_scan xs of None \<Rightarrow> Inl ValueError | Some (i, v) \<Rightarrow> Inr i)"

definition fillna :: "int \<Rightarrow> int option \<Rightarrow> int option" where
  "fillna v x = (case x of None \<Rightarrow> Some v | Some y \<Rightarrow> Some y)"

text \<open>\<^verbatim>\<open>Series.unique()\<close>: the distinct values in order of first appearance.\<close>

definition unique :: "'a list \<Rightarrow> 'a list" where
  "unique xs = foldl (\<lambda>seen x. if x \<in> set seen then seen else seen @ [x]) [] xs"

text \<open>
  The difference of two dates in days, \<^verbatim>\<open>(a - b).days\<close>, is the difference of their
  proleptic Gregorian ordinals.
\<close>

definition days_before_year :: "nat \<Rightarrow> int" where
  "days_before_year y =
     (let y1 = int y - 1 in y1 * 365 + y1 div 4 - y1 div 100 + y1 div 400)"

definition days_before_month :: "nat \<Rightarrow> nat \<Rightarrow> int" where
  "days_before_month y m =
     [0, 31, 59, 90, 120, 151, 181, 212, 243, 273, 304, 334] ! (m - 1) +
     (if 2 < m \<and> is_leap y then 1 else 0)"

definition toordinal :: "date \<Rightarrow> int" where
  "toordinal d = days_before_year (year d) + days_before_month (year d) (month d) + int (day d)"

definition days_between :: "date \<Rightarrow> date \<Rightarrow> int" where
  "days_between a b = toordinal a - toordinal b"

subsection \<open>process\_data\<close>

text \<open>
  The function assigns the \<^verbatim>\<open>date\<close> column of the table it was given, then filters and
  groups copies. It returns the caller's table as the call leaves it, and the aggregated
  table.
\<close>

definition group_key :: "'a row_scheme \<Rightarrow> date \<times> string \<times> string" where
  "group_key r = (cell_date (date r), country r, iso_alpha r)"

definition process_data ::
  "'a row_scheme list \<Rightarrow> string list \<Rightarrow> date \<Rightarrow> date \<Rightarrow> 'a row_scheme list \<times> row list" where
  "process_data df selected_countries start_date end_date =
     (let df0 = map (\<lambda>r. r\<lparr>date := Day (dt_date (to_datetime (date r)))\<rparr>) df;
          df1 = filter (\<lambda>r. start_date \<le> cell_date (date r) \<and> cell_date (date r) \<le> end_date) df0;
          df2 = filter (\<lambda>r. country r \<in> set selected_countries) df1;
          aggregated_df =
            map (\<lambda>((d, c, i), rs).
                  \<lparr>date = Day d, country = c, iso_alpha = i,
                   confirmed = series_sum (map confirmed rs),
                   deaths = series_sum (map deaths rs),
                   recovered = series_sum (map recovered rs)\<rparr>)
              (groupby group_key df2)
      in (df0, aggregated_df))"

subsection \<open>main\<close>

record ('r, 'a) dash_run =
  shown :: "'r effect list"
  frame :: "'a row_scheme list"
  failed :: "error option"

definition min_date :: date where
  "min_date = Date 2020 3 9"

definition max_date :: date where
  "max_date = Date 2023 3 9"

text \<open>The widgets drawn before the checks.\<close>

definition widgets :: "'a row_scheme list \<Rightarrow> 'r effect list" where
  "widgets df =
     (let available_countries = unique (map country df)
      in [St_title ''COVID-19 Data Visualization'',
          St_write ''Select a date range (maximum one year) and countries to compare COVID-19 statistics.'',
          St_multiselect ''Select Countries'' available_countries
            (case available_countries of [] \<Rightarrow> [] | c # cs \<Rightarrow> [c]),
          St_date_input ''Start Date'' min_date min_date max_date,
          St_date_input ''End Date'' max_date min_date max_date])"

text \<open>The maximum of a column and the country of the row \<^verbatim>\<open>idxmax\<close> names.\<close>

definition highest :: "(row \<Rightarrow> int option) \<Rightarrow> row list \<Rightarrow> error + int option \<times> string" where
  "highest col aggregated_df =
     (let mx = series_max (map col aggregated_df)
      in case series_idxmax (map col aggregated_df) of
           Inl e \<Rightarrow> Inl e
         | Inr i \<Rightarrow> Inr (mx, country (aggregated_df ! i)))"

definition charts :: "row list \<Rightarrow> 'r effect list" where
  "charts aggregated_df =
     [St_subheader ''Map of Selected Countries'',
      St_plotly_chart (Choropleth
        (map (\<lambda>(k, rs). (k, agg_sum rs)) (groupby (\<lambda>g. (country g, iso_alpha g)) aggregated_df))),
      St_subheader ''Confirmed Cases Over Time'',
      St_plotly_chart (Line ''confirmed'' aggregated_df),
      St_subheader ''Deaths Over Time'',
      St_plotly_chart (Line ''deaths'' aggregated_df),
      St_subheader ''Recovered Cases Over Time'',
      St_plotly_chart (Line ''recovered'' aggregated_df)]"

text \<open>
  \<open>main loaded selected_countries start_date end_date\<close>: one run of the script for what
  the widgets return. \<open>loaded\<close> is the outcome of \<^verbatim>\<open>load_data()\<close>, which raises when the
  file or a \<^verbatim>\<open>region\<close> cell cannot be read.
\<close>

definition main ::
  "error + 'a row_scheme list \<Rightarrow> string list \<Rightarrow> date \<Rightarrow> date \<Rightarrow> ('r, 'a) dash_run" where
  "main loaded selected_countries start_date end_date =
     (case loaded of
        Inl e \<Rightarrow>
          \<lparr>shown = [St_title ''COVID-19 Data Visualization'',
             St_write ''Select a date range (maximum one year) and countries to compare COVID-19 statistics.''],
           frame = [], failed = Some e\<rparr>
      | Inr df \<Rightarrow>
          if days_between end_date start_date > 365 then
            \<lparr>shown = widgets df @ [St_error ''Error: The date range must be no more than one year.''],
             frame = df, failed = None\<rparr>
          else if start_date > end_date then
            \<lparr>shown = widgets df @ [St_error ''Error: End date must be after start date.''],
             frame = df, failed = None\<rparr>
          else if selected_countries = [] then
            \<lparr>shown = widgets df @ [St_info ''Please select at least one country.''],
             frame = df, failed = None\<rparr>
          else
            (case process_data df selected_countries start_date end_date of
               (df', agg) \<Rightarrow>
                 (let aggregated_df = map (\<lambda>g. g\<lparr>recovered := fillna 0 (recovered g)\<rparr>) agg
                  in case highest confirmed aggregated_df of
                       Inl e \<Rightarrow> \<lparr>shown = widgets df, frame = df', failed = Some e\<rparr>
                     | Inr (max_confirmed, max_confirmed_country) \<Rightarrow>
                  case highest deaths aggregated_df of
                       Inl e \<Rightarrow> \<lparr>shown = widgets df, frame = df', failed = Some e\<rparr>
                     | Inr (max_deaths, max_deaths_country) \<Rightarrow>
                  case highest recovered aggregated_df of
                       Inl e \<Rightarrow> \<lparr>shown = widgets df, frame = df', failed = Some e\<rparr>
                     | Inr (max_recovered, max_recovered_country) \<Rightarrow>
                         \<lparr>shown = widgets df @
                            [St_subheader ''Highest Values'', St_columns 3,
                             St_metric ''Highest Confirmed Cases'' max_confirmed
                               (''Country: '' @ max_confirmed_country),
                             St_metric ''Highest Deaths'' max_deaths
                               (''Country: '' @ max_deaths_country),
                             St_metric ''Highest Recovered Cases'' max_recovered
                               (''Country: '' @ max_recovered_country)] @
                            charts aggregated_df,
                          frame = df', failed = None\<rparr>)))"

section \<open>Properties of the fetcher\<close>

declare fetch_loop.simps [simp del]

lemma fetch_loop_stop:
  "\<not> c \<le> e \<Longrightarrow> fetch_loop get e c acc out = \<lparr>all_data = acc, current = c, log = out, raised = None\<rparr>"
  by (simp add: fetch_loop.simps)

lemma fetch_loop_raise:
  "c \<le> e \<Longrightarrow> next_date c = Inl x \<Longrightarrow>
   fetch_loop get e c acc out =
     \<lparr>all_data = acc @ body_acc get c, current = c, log = out @ body_out get c, raised = Some x\<rparr>"
  by (subst fetch_loop.simps)
    (auto simp: body_out_def body_acc_def Let_def split: prod.splits option.splits list.splits)

lemma fetch_loop_next:
  "c \<le> e \<Longrightarrow> next_date c = Inr d \<Longrightarrow>
   fetch_loop get e c acc out = fetch_loop get e d (acc @ body_acc get c) (out @ body_out get c)"
  by (subst fetch_loop.simps)
    (auto simp: body_out_def body_acc_def Let_def split: prod.splits option.splits list.splits)

lemma gets_append: "gets (a @ b) = gets a @ gets b"
  by (induction a rule: gets.induct) auto

lemma gets_body: "gets (body_out get c) = [request_url (strftime_ymd c)]"
  by (simp add: body_out_def fetch_data_for_date_def request_url_def Let_def)

lemma month_index_mono: "valid_date c \<Longrightarrow> valid_date e \<Longrightarrow> c \<le> e \<Longrightarrow> month_index c \<le> month_index e"
  by (auto simp: valid_date_def less_eq_date_def month_index_def)

lemma days_in_month_ge: "1 \<le> m \<Longrightarrow> m \<le> 12 \<Longrightarrow> 28 \<le> days_in_month y m"
proof -
  assume "1 \<le> m" "m \<le> 12"
  then have "m = 1 \<or> m = 2 \<or> m = 3 \<or> m = 4 \<or> m = 5 \<or> m = 6 \<or> m = 7 \<or> m = 8 \<or> m = 9
      \<or> m = 10 \<or> m = 11 \<or> m = 12" by arith
  then show ?thesis by (auto simp: days_in_month_def)
qed

lemma valid_first: "MINYEAR \<le> y \<Longrightarrow> y \<le> MAXYEAR \<Longrightarrow> 1 \<le> m \<Longrightarrow> m \<le> 12 \<Longrightarrow> valid_date (Date y m 1)"
  using days_in_month_ge [of m y] by (simp add: valid_date_def)

lemma next_date_december:
  "month c = 12 \<Longrightarrow> MINYEAR \<le> year c + 1 \<Longrightarrow> year c < MAXYEAR \<Longrightarrow> next_date c = Inr (Date (year c + 1) 1 1)"
  using valid_first [of "year c + 1" 1] by (simp add: next_date_def date_replace_def)

lemma next_date_other:
  "month c < 12 \<Longrightarrow> MINYEAR \<le> year c \<Longrightarrow> year c \<le> MAXYEAR \<Longrightarrow>
     next_date c = Inr (Date (year c) (month c + 1) 1)"
  using valid_first [of "year c" "month c + 1"] by (simp add: next_date_def date_replace_def)

lemma next_date_overflow:
  "month c = 12 \<Longrightarrow> year c = MAXYEAR \<Longrightarrow> next_date c = Inl ValueError"
  by (simp add: next_date_def date_replace_def valid_date_def)

lemma first_of_month_after_1:
  "1 \<le> month c \<Longrightarrow> month c \<le> 12 \<Longrightarrow> first_of_month_after c (Suc 0) =
     (if month c = 12 then Date (year c + 1) 1 1 else Date (year c) (month c + 1) 1)"
  by (auto simp: first_of_month_after_def month_index_def)

lemma next_date_valid:
  "valid_date c \<Longrightarrow> next_date c =
     (if year c = MAXYEAR \<and> month c = 12 then Inl ValueError else Inr (first_of_month_after c (Suc 0)))"
  using next_date_december [of c] next_date_other [of c] next_date_overflow [of c]
    first_of_month_after_1 [of c]
  by (cases "month c = 12") (auto simp: valid_date_def)

lemma month_index_first_of_month_after:
  "0 < month_index c + k \<Longrightarrow> month_index (first_of_month_after c k) = month_index c + k"
  by (simp add: first_of_month_after_def month_index_def [of "Date y m d" for y m d])

lemma first_of_month_after_cong:
  "month_index c = month_index d \<Longrightarrow> first_of_month_after c k = first_of_month_after d k"
  by (simp add: first_of_month_after_def)

lemma first_of_month_after_shift:
  "month_index d = Suc (month_index c) \<Longrightarrow> first_of_month_after d k = first_of_month_after c (Suc k)"
  by (simp add: first_of_month_after_def)

lemma month_index_eq:
  "valid_date c \<Longrightarrow> valid_date e \<Longrightarrow> month_index c = month_index e \<Longrightarrow> year c = year e \<and> month c = month e"
proof -
  assume "valid_date c" "valid_date e" "month_index c = month_index e"
  then have "12 * year c + month c = 12 * year e + month e"
    "1 \<le> month c" "month c \<le> 12" "1 \<le> month e" "month e \<le> 12"
    by (simp_all add: valid_date_def month_index_def)
  then show ?thesis by arith
qed

lemma sampled_dates_single: "month_index e \<le> month_index c \<Longrightarrow> sampled_dates c e = [c]"
  by (simp add: sampled_dates_def months_spanned_def)

lemma sampled_dates_step:
  assumes "month_index d = Suc (month_index c)" "month_index d \<le> month_index e"
    and "d = first_of_month_after c (Suc 0)"
  shows "sampled_dates c e = c # sampled_dates d e"
proof -
  have n: "months_spanned c e = Suc (months_spanned d e)" "0 < months_spanned d e"
    using assms by (simp_all add: months_spanned_def)
  have "[1..<months_spanned c e] = Suc 0 # map Suc [1..<months_spanned d e]"
    using n by (simp add: map_Suc_upt upt_conv_Cons)
  then show ?thesis
    using assms by (simp add: sampled_dates_def first_of_month_after_shift o_def)
qed

lemma fetch_loop_run:
  assumes e: "valid_date e"
  shows "valid_date c \<Longrightarrow> c \<le> e \<Longrightarrow> month_index e - month_index c = n \<Longrightarrow>
     fetch_loop get e c acc out =
       \<lparr>all_data = acc @ concat (map (body_acc get) (sampled_dates c e)),
        current = final_date c e,
        log = out @ concat (map (body_out get) (sampled_dates c e)),
        raised = (if overflows e then Some ValueError else None)\<rparr>"
proof (induction n arbitrary: c acc out)
  case 0
  have le: "month_index c \<le> month_index e"
    using month_index_mono [OF 0(1) e 0(2)] .
  with 0 have eq: "month_index c = month_index e" by simp
  then have ym: "year c = year e" "month c = month e"
    using month_index_eq [OF 0(1) e] by simp_all
  have s: "sampled_dates c e = [c]"
    using eq by (simp add: sampled_dates_single)
  show ?case
  proof (cases "overflows e")
    case True
    then have "next_date c = Inl ValueError"
      using ym by (simp add: next_date_overflow overflows_def)
    then show ?thesis
      using True s 0(2) by (simp add: fetch_loop_raise final_date_def)
  next
    case False
    define d where "d = first_of_month_after c (Suc 0)"
    have nd: "next_date c = Inr d"
      using False ym 0(1) by (simp add: next_date_valid overflows_def d_def)
    have "month_index d = Suc (month_index e)" "day d = 1"
      using next_date_Inr [OF nd] eq by simp_all
    moreover have "1 \<le> day e" "1 \<le> month e" "month e \<le> 12"
      using e by (simp_all add: valid_date_def)
    ultimately have "\<not> d \<le> e"
      using next_date_Inr [OF nd]
      by (auto simp: less_eq_date_def month_index_def valid_date_def)
    moreover have "d = first_of_month_after e (Suc 0)"
      unfolding d_def using eq by (rule first_of_month_after_cong)
    ultimately show ?thesis
      using False s 0(2) nd by (simp add: fetch_loop_next fetch_loop_stop final_date_def)
  qed
next
  case (Suc n)
  have lt: "month_index c < month_index e" using Suc.prems by simp
  define d where "d = first_of_month_after c (Suc 0)"
  have "\<not> (year c = MAXYEAR \<and> month c = 12)"
    using lt e Suc.prems(1) by (auto simp: month_index_def valid_date_def)
  then have nd: "next_date c = Inr d"
    using Suc.prems(1) by (simp add: next_date_valid d_def)
  have d: "month_index d = Suc (month_index c)" "day d = 1" "valid_date d"
    using next_date_Inr [OF nd] by simp_all
  have "1 \<le> day e" using e by (simp add: valid_date_def)
  then have de: "d \<le> e"
    using d lt e by (auto simp: less_eq_date_def month_index_def valid_date_def)
  have n: "month_index e - month_index d = n"
    using d Suc.prems by simp
  have s: "sampled_dates c e = c # sampled_dates d e"
    using d lt by (intro sampled_dates_step) (simp_all add: d_def)
  have ne: "sampled_dates d e \<noteq> []" by (simp add: sampled_dates_def)
  show ?case
    using Suc.IH [OF d(3) de n] nd Suc.prems(2) s ne
    by (simp add: fetch_loop_next final_date_def)
qed

lemma fetch_loop_gets:
  assumes "valid_date s" "valid_date e" "s \<le> e"
  shows "gets (log (fetch_loop get e s [] [])) =
     map (\<lambda>d. request_url (strftime_ymd d)) (sampled_dates s e)"
proof -
  have "gets (concat (map (body_out get) ds)) = map (\<lambda>d. request_url (strftime_ymd d)) ds" for ds
    by (induction ds) (simp_all add: gets_append gets_body)
  then show ?thesis
    using fetch_loop_run [OF assms(2) assms(1) assms(3) refl, of get "[]" "[]"] by simp
qed

lemma length_sampled_dates: "month_index s \<le> month_index e \<Longrightarrow> length (sampled_dates s e) = months_spanned s e"
  by (simp add: sampled_dates_def months_spanned_def)

lemma valid_month_index_pos: "valid_date s \<Longrightarrow> 0 < month_index s"
  by (simp add: valid_date_def month_index_def)

lemma map_add_upt_from: "map (\<lambda>k. k + n) [a..<b] = [a + n..<b + (n::nat)]"
  by (induction b) simp_all

lemma month_index_sampled_dates:
  assumes "valid_date s" "month_index s \<le> month_index e"
  shows "map month_index (sampled_dates s e) = [month_index s..<Suc (month_index e)]"
proof -
  have "map month_index (map (first_of_month_after s) [1..<months_spanned s e]) =
      map (\<lambda>k. month_index s + k) [1..<months_spanned s e]"
    using valid_month_index_pos [OF assms(1)] by (simp add: month_index_first_of_month_after)
  also have "\<dots> = map (\<lambda>k. k + month_index s) [1..<months_spanned s e]"
    by (simp add: add.commute)
  also have "\<dots> = [Suc (month_index s)..<Suc (month_index e)]"
    using assms(2) by (simp add: map_add_upt_from months_spanned_def del: upt_Suc)
  finally show ?thesis
    using assms(2) by (simp add: sampled_dates_def upt_conv_Cons del: upt_Suc)
qed

lemma valid_2020:
  "valid_date (Date 2020 3 9)" "valid_date (Date 2020 5 1)" "valid_date (Date 2023 3 9)"
  "Date 2020 3 9 \<le> Date 2020 5 1" "Date 2020 3 9 \<le> Date 2023 3 9"
  by (simp_all add: valid_date_def MINYEAR_def MAXYEAR_def days_in_month_def is_leap_def less_eq_date_def)

lemma sampled_2020:
  "sampled_dates (Date 2020 3 9) (Date 2020 5 1) = [Date 2020 3 9, Date 2020 4 1, Date 2020 5 1]"
proof -
  have "[1..<3] = [1, 2::nat]" by (simp add: upt_conv_Cons)
  then show ?thesis
    by (simp add: sampled_dates_def months_spanned_def month_index_def first_of_month_after_def)
qed

text \<open>
  Claim C2. For valid dates with the start not after the end, the requests of the loop are
  exactly one per calendar month from the start date's month to the end date's: the first
  for the start date itself, the \<open>k\<close>-th later one for the first day of the \<open>k\<close>-th
  following month. From 2020-03-09 to 2020-05-01 that makes the three requests for
  2020-03-09, 2020-04-01 and 2020-05-01.
\<close>

theorem fetch_requests_per_month:
  "(valid_date s \<and> valid_date e \<and> s \<le> e \<longrightarrow>
      gets (log (fetch_loop get e s [] [])) =
        map (\<lambda>d. request_url (strftime_ymd d)) (s # map (first_of_month_after s) [1..<months_spanned s e]) \<and>
      length (gets (log (fetch_loop get e s [] []))) = months_spanned s e \<and>
      months_spanned s e = 12 * year e + month e + 1 - (12 * year s + month s) \<and>
      (\<forall>k. 0 < k \<longrightarrow> day (first_of_month_after s k) = 1 \<and>
            12 * year (first_of_month_after s k) + month (first_of_month_after s k) =
            12 * year s + month s + k)) \<and>
   gets (log (fetch_loop get (Date 2020 5 1) (Date 2020 3 9) [] [])) =
     [''https://covid-api.com/api/reports?date=2020-03-09'',
      ''https://covid-api.com/api/reports?date=2020-04-01'',
      ''https://covid-api.com/api/reports?date=2020-05-01'']"
proof (intro conjI impI allI)
  assume a: "valid_date s \<and> valid_date e \<and> s \<le> e"
  then have m: "month_index s \<le> month_index e" by (simp add: month_index_mono)
  show "gets (log (fetch_loop get e s [] [])) =
        map (\<lambda>d. request_url (strftime_ymd d)) (s # map (first_of_month_after s) [1..<months_spanned s e])"
    using a by (simp add: fetch_loop_gets sampled_dates_def)
  show "length (gets (log (fetch_loop get e s [] []))) = months_spanned s e"
    using a m by (simp add: fetch_loop_gets length_sampled_dates)
  show "months_spanned s e = 12 * year e + month e + 1 - (12 * year s + month s)"
    by (simp add: months_spanned_def month_index_def)
  fix k :: nat
  assume "0 < k"
  show "day (first_of_month_after s k) = 1"
    by (simp add: first_of_month_after_def)
  show "12 * year (first_of_month_after s k) + month (first_of_month_after s k) = 12 * year s + month s + k"
    using month_index_first_of_month_after [of s k] \<open>0 < k\<close> by (simp add: month_index_def)
next
  have "gets (log (fetch_loop get (Date 2020 5 1) (Date 2020 3 9) [] [])) =
      map (\<lambda>d. request_url (strftime_ymd d)) (sampled_dates (Date 2020 3 9) (Date 2020 5 1))"
    by (rule fetch_loop_gets) (rule valid_2020)+
  then show "gets (log (fetch_loop get (Date 2020 5 1) (Date 2020 3 9) [] [])) =
     [''https://covid-api.com/api/reports?date=2020-03-09'',
      ''https://covid-api.com/api/reports?date=2020-04-01'',
      ''https://covid-api.com/api/reports?date=2020-05-01'']"
    unfolding sampled_2020
    by (simp add: request_url_def strftime_ymd_def isoformat_def pad4_def pad2_def digit_def)
qed

theorem fetch_requests_per_month_witness:
  "valid_date (Date 2020 3 9) \<and> valid_date (Date 2023 3 9) \<and> Date 2020 3 9 \<le> Date 2023 3 9 \<and>
   length (gets (log (fetch_loop no_data (Date 2023 3 9) (Date 2020 3 9) [] []))) = 37"
  using fetch_requests_per_month [of "Date 2020 3 9" "Date 2023 3 9" no_data] valid_2020
  by (simp add: months_spanned_def month_index_def)

lemma first_of_month_after_same:
  "month_index d + k = month_index c + j \<Longrightarrow> first_of_month_after d k = first_of_month_after c j"
  by (simp add: first_of_month_after_def)

lemma valid_first_of_month_after:
  assumes "valid_date s" "valid_date e" "month_index s + k \<le> month_index e"
  shows "valid_date (first_of_month_after s k)"
proof -
  have "13 \<le> month_index s" "month_index e \<le> 12 * 9999 + 12"
    using assms(1,2) by (simp_all add: valid_date_def month_index_def MINYEAR_def MAXYEAR_def)
  then have "12 \<le> month_index s + k - 1" "month_index s + k - 1 < 10000 * 12"
    using assms(3) by simp_all
  then have "1 \<le> (month_index s + k - 1) div 12" "(month_index s + k - 1) div 12 < 10000"
    by (simp_all add: less_mult_imp_div_less Suc_le_eq div_greater_zero_iff)
  then show ?thesis
    unfolding first_of_month_after_def by (intro valid_first) (simp_all add: MINYEAR_def MAXYEAR_def)
qed

lemma sampled_dates_chain:
  assumes "valid_date s" "valid_date e" "Suc i < months_spanned s e"
  shows "next_date (sampled_dates s e ! i) = Inr (sampled_dates s e ! Suc i)"
proof -
  define c where "c = sampled_dates s e ! i"
  have i: "month_index s + Suc i \<le> month_index e"
    using assms(3) by (simp add: months_spanned_def)
  have c: "valid_date c \<and> month_index c = month_index s + i"
  proof (cases i)
    case 0
    then show ?thesis using assms(1) by (simp add: c_def sampled_dates_def)
  next
    case (Suc j)
    then have "c = first_of_month_after s i"
      using assms(3) by (simp add: c_def sampled_dates_def)
    then show ?thesis
      using valid_first_of_month_after [OF assms(1,2), of i] i
        month_index_first_of_month_after [of s i] Suc by simp
  qed
  have "month_index c < month_index e" using c i by simp
  then have "\<not> (year c = MAXYEAR \<and> month c = 12)"
    using assms(2) by (auto simp: month_index_def valid_date_def)
  then have "next_date c = Inr (first_of_month_after c (Suc 0))"
    using c by (simp add: next_date_valid)
  also have "first_of_month_after c (Suc 0) = first_of_month_after s (Suc i)"
    using c by (intro first_of_month_after_same) simp
  also have "\<dots> = sampled_dates s e ! Suc i"
    using assms(3) by (simp add: sampled_dates_def)
  finally show ?thesis by (simp add: c_def)
qed

lemma next_date_increases: "next_date c = Inr d \<Longrightarrow> c < d"
  by (auto simp: next_date_def date_replace_def less_date_def split: if_splits)

lemma less_first_of_month_after: "valid_date e \<Longrightarrow> e < first_of_month_after e (Suc 0)"
  by (simp add: first_of_month_after_1 valid_date_def less_date_def)

text \<open>
  Claim C8, as stated, has the sampling start at day 1 of the start month. The script starts
  at the start date itself: with its own dates the first request is for 2020-03-09, not for
  2020-03-01.
\<close>

theorem fetch_starts_at_day_one_counterexample:
  "hd (gets (log (fetch_loop no_data (Date 2023 3 9) (Date 2020 3 9) [] []))) =
     ''https://covid-api.com/api/reports?date=2020-03-09'' \<and>
   request_url (strftime_ymd (Date 2020 3 1)) = ''https://covid-api.com/api/reports?date=2020-03-01''"
proof -
  have "gets (log (fetch_loop no_data (Date 2023 3 9) (Date 2020 3 9) [] [])) =
      map (\<lambda>d. request_url (strftime_ymd d)) (sampled_dates (Date 2020 3 9) (Date 2023 3 9))"
    by (rule fetch_loop_gets) (rule valid_2020)+
  then show ?thesis
    by (simp add: sampled_dates_def request_url_def strftime_ymd_def isoformat_def pad4_def pad2_def
        digit_def)
qed

text \<open>
  Claim C8, amended. The sampling starts at the start date itself. Each step goes from
  December to January 1 of the next year (while that year exists, that is up to 9999) and
  from any other month to day 1 of the next month, and each sampled date is the step of the
  one before it. The sampled dates cover every calendar month from the start date's to the
  end date's exactly once.
\<close>

theorem fetch_one_sample_per_month:
  "(valid_date s \<and> valid_date e \<and> s \<le> e \<longrightarrow>
      gets (log (fetch_loop get e s [] [])) =
        map (\<lambda>d. request_url (strftime_ymd d)) (sampled_dates s e) \<and>
      sampled_dates s e ! 0 = s \<and>
      map month_index (sampled_dates s e) = [month_index s..<Suc (month_index e)] \<and>
      (\<forall>i. Suc i < length (sampled_dates s e) \<longrightarrow>
         next_date (sampled_dates s e ! i) = Inr (sampled_dates s e ! Suc i) \<and>
         day (sampled_dates s e ! Suc i) = 1)) \<and>
   (month c = 12 \<and> year c < MAXYEAR \<longrightarrow> next_date c = Inr (Date (year c + 1) 1 1)) \<and>
   (month c < 12 \<and> MINYEAR \<le> year c \<and> year c \<le> MAXYEAR \<longrightarrow>
      next_date c = Inr (Date (year c) (month c + 1) 1))"
proof (intro conjI impI allI)
  assume a: "valid_date s \<and> valid_date e \<and> s \<le> e"
  then have m: "month_index s \<le> month_index e" by (simp add: month_index_mono)
  show "gets (log (fetch_loop get e s [] [])) = map (\<lambda>d. request_url (strftime_ymd d)) (sampled_dates s e)"
    using a by (simp add: fetch_loop_gets)
  show "sampled_dates s e ! 0 = s"
    by (simp add: sampled_dates_def)
  show "map month_index (sampled_dates s e) = [month_index s..<Suc (month_index e)]"
    using a m by (simp add: month_index_sampled_dates del: upt_Suc)
  fix i assume "Suc i < length (sampled_dates s e)"
  then have i: "Suc i < months_spanned s e"
    using m by (simp add: length_sampled_dates)
  show "next_date (sampled_dates s e ! i) = Inr (sampled_dates s e ! Suc i)"
    using a i by (simp add: sampled_dates_chain)
  then show "day (sampled_dates s e ! Suc i) = 1"
    using next_date_Inr by blast
next
  assume "month c = 12 \<and> year c < MAXYEAR"
  then show "next_date c = Inr (Date (year c + 1) 1 1)"
    by (simp add: next_date_december MINYEAR_def)
next
  assume "month c < 12 \<and> MINYEAR \<le> year c \<and> year c \<le> MAXYEAR"
  then show "next_date c = Inr (Date (year c) (month c + 1) 1)"
    by (simp add: next_date_other)
qed

theorem fetch_one_sample_per_month_witness:
  "valid_date (Date 2020 3 9) \<and> valid_date (Date 2020 5 1) \<and> Date 2020 3 9 \<le> Date 2020 5 1 \<and>
   gets (log (fetch_loop no_data (Date 2020 5 1) (Date 2020 3 9) [] [])) =
     map (\<lambda>d. request_url (strftime_ymd d)) [Date 2020 3 9, Date 2020 4 1, Date 2020 5 1] \<and>
   map month_index [Date 2020 3 9, Date 2020 4 1, Date 2020 5 1] = [24243, 24244, 24245] \<and>
   next_date (Date 2020 12 1) = Inr (Date 2021 1 1) \<and>
   next_date (Date 2020 3 9) = Inr (Date 2020 4 1)"
proof -
  have d: "month (Date 2020 12 1) = 12 \<and> year (Date 2020 12 1) < MAXYEAR"
    by (simp add: MAXYEAR_def)
  have o: "month (Date 2020 3 9) < 12 \<and> MINYEAR \<le> year (Date 2020 3 9) \<and> year (Date 2020 3 9) \<le> MAXYEAR"
    by (simp add: MAXYEAR_def MINYEAR_def)
  show ?thesis
    using fetch_one_sample_per_month [of "Date 2020 3 9" "Date 2020 5 1" no_data "Date 2020 12 1"]
      fetch_one_sample_per_month [of "Date 2020 3 9" "Date 2020 5 1" no_data "Date 2020 3 9"]
      valid_2020 d o sampled_2020
    by (simp add: month_index_def)
qed

text \<open>
  Claim C9, as stated, has the loop condition fail for every pair of dates. With an end date
  in December 9999 the step to January 10000 raises \<^verbatim>\<open>ValueError\<close> while the
  current date is still within the range: the loop is ended by the exception.
\<close>

theorem fetch_loop_overflow_counterexample:
  "Date 9999 12 1 \<le> Date 9999 12 31 \<and>
   raised (fetch_loop no_data (Date 9999 12 31) (Date 9999 12 1) [] []) = Some ValueError \<and>
   current (fetch_loop no_data (Date 9999 12 31) (Date 9999 12 1) [] []) = Date 9999 12 1"
proof -
  have le: "Date 9999 12 1 \<le> Date 9999 12 31" by (simp add: less_eq_date_def)
  have "next_date (Date 9999 12 1) = Inl ValueError"
    by (simp add: next_date_overflow MAXYEAR_def)
  then show ?thesis using le by (simp add: fetch_loop_raise)
qed

text \<open>
  Claim C9, amended. The loop is a total function: its recursion is well founded on the
  number of months left. For valid dates with the start not after the end it makes exactly
  one pass per calendar month of the range; every completed step strictly increases the
  current date; when the end date lies before December 9999 the loop ends with the current
  date beyond the end date, and when it lies in December 9999 the last pass raises
  \<^verbatim>\<open>ValueError\<close>.
\<close>

theorem fetch_loop_ends:
  "(valid_date s \<and> valid_date e \<and> s \<le> e \<longrightarrow>
      length (gets (log (fetch_loop get e s [] []))) = months_spanned s e \<and>
      (\<not> overflows e \<longrightarrow>
         raised (fetch_loop get e s [] []) = None \<and> e < current (fetch_loop get e s [] [])) \<and>
      (overflows e \<longrightarrow> raised (fetch_loop get e s [] []) = Some ValueError)) \<and>
   (next_date c = Inr d \<longrightarrow> c < d)"
proof (intro conjI impI)
  assume a: "valid_date s \<and> valid_date e \<and> s \<le> e"
  then have m: "month_index s \<le> month_index e" by (simp add: month_index_mono)
  note run = fetch_loop_run [of e s _ get "[]" "[]", OF _ _ _ refl]
  show "length (gets (log (fetch_loop get e s [] []))) = months_spanned s e"
    using a m by (simp add: fetch_loop_gets length_sampled_dates)
  show "raised (fetch_loop get e s [] []) = None" if "\<not> overflows e"
    using a that by (simp add: run)
  show "e < current (fetch_loop get e s [] [])" if "\<not> overflows e"
    using a that by (simp add: run final_date_def less_first_of_month_after)
  show "raised (fetch_loop get e s [] []) = Some ValueError" if "overflows e"
    using a that by (simp add: run)
next
  assume "next_date c = Inr d"
  then show "c < d" by (rule next_date_increases)
qed

theorem fetch_loop_ends_witness:
  "valid_date (Date 2020 3 9) \<and> valid_date (Date 2023 3 9) \<and> Date 2020 3 9 \<le> Date 2023 3 9 \<and>
   \<not> overflows (Date 2023 3 9) \<and>
   length (gets (log (fetch_loop no_data (Date 2023 3 9) (Date 2020 3 9) [] []))) = 37 \<and>
   raised (fetch_loop no_data (Date 2023 3 9) (Date 2020 3 9) [] []) = None \<and>
   Date 2023 3 9 < current (fetch_loop no_data (Date 2023 3 9) (Date 2020 3 9) [] []) \<and>
   next_date (Date 2020 3 9) = Inr (Date 2020 4 1) \<and> Date 2020 3 9 < Date 2020 4 1"
proof -
  have n: "next_date (Date 2020 3 9) = Inr (Date 2020 4 1)"
    by (simp add: next_date_other MINYEAR_def MAXYEAR_def)
  have o: "\<not> overflows (Date 2023 3 9)" by (simp add: overflows_def)
  show ?thesis
    using fetch_loop_ends [of "Date 2020 3 9" "Date 2023 3 9" no_data "Date 2020 3 9" "Date 2020 4 1"]
      valid_2020 n o
    by (simp add: months_spanned_def month_index_def)
qed

end
